theory Spec2Isabelle
  imports Main
begin

section \<open>Text primitives\<close>

text \<open>
  Python strings are modelled as HOL strings. The character classes below are the ASCII
  part of Python's \<open>str.isspace\<close>, \<open>\d\<close>, \<open>\w\<close>, \<open>str.lower\<close> and \<open>str.upper\<close>; any
  other character is treated as an opaque symbol (not a space, digit or word character,
  and left alone by the case conversions).
\<close>

definition newline :: char where
  "newline = CHR 0x0A"

definition is_space :: "char \<Rightarrow> bool" where
  "is_space c = (let n = (of_char c :: nat) in (9 \<le> n \<and> n \<le> 13) \<or> (28 \<le> n \<and> n \<le> 32))"

definition is_digit :: "char \<Rightarrow> bool" where
  "is_digit c = (let n = (of_char c :: nat) in 48 \<le> n \<and> n \<le> 57)"

definition is_word :: "char \<Rightarrow> bool" where
  "is_word c = (let n = (of_char c :: nat) in
     (48 \<le> n \<and> n \<le> 57) \<or> (65 \<le> n \<and> n \<le> 90) \<or> n = 95 \<or> (97 \<le> n \<and> n \<le> 122))"








text \<open>\<open>not text.strip()\<close>: the text is empty or all whitespace.\<close>

definition is_blank :: "string \<Rightarrow> bool" where
  "is_blank text = list_all is_space text"

text \<open>\<open>sep.join(parts)\<close>\<close>

fun join :: "string \<Rightarrow> string list \<Rightarrow> string" where
  "join sep [] = []"
| "join sep [p] = p"
| "join sep (p # q # ps) = p @ sep @ join sep (q # ps)"

text \<open>\<open>str(n)\<close> for an integer, in decimal.\<close>

fun str_nat :: "nat \<Rightarrow> string" where
  "str_nat n = (if n < 10 then [''0123456789'' ! n]
                else str_nat (n div 10) @ [''0123456789'' ! (n mod 10)])"

definition str_int :: "int \<Rightarrow> string" where
  "str_int i = (if i < 0 then CHR ''-'' # str_nat (nat (- i)) else str_nat (nat i))"



text \<open>\<open>range(start, stop)\<close> over Python integers.\<close>

definition py_range :: "int \<Rightarrow> int \<Rightarrow> int list" where
  "py_range start stop = [start..stop - 1]"

section \<open>Insertion-ordered dictionaries\<close>


section \<open>Stage 4: page text extraction\<close>

text \<open>
  A document is its list of pages. A page is \<open>Some text\<close> when
  \<open>pdf[i].get_textpage().get_text_range()\<close> returns \<open>text\<close> and \<open>None\<close> when it raises.
  Loading a page outside the document raises in the PDF library, so it is \<open>None\<close> too.
\<close>

type_synonym pdf = "string option list"

definition CHARS_PER_PAGE :: nat where
  "CHARS_PER_PAGE = 3000"


definition len_pdf :: "pdf \<Rightarrow> int" where
  "len_pdf pdf = int (length pdf)"

definition page_text :: "pdf \<Rightarrow> int \<Rightarrow> string option" where
  "page_text pdf i = (if 0 \<le> i \<and> i < len_pdf pdf then pdf ! nat i else None)"

definition page_segment :: "int \<Rightarrow> string \<Rightarrow> string" where
  "page_segment i text = ''-- Page '' @ str_int (i + 1) @ '' --'' @ [newline] @ take CHARS_PER_PAGE text"

text \<open>The body of the loop of \<open>extract_pages\<close>: one page index, the list \<open>parts\<close> threaded.\<close>

definition extract_page_step :: "pdf \<Rightarrow> string list \<Rightarrow> int \<Rightarrow> string list" where
  "extract_page_step pdf parts i =
     (case page_text pdf i of
        None \<Rightarrow> parts
      | Some text \<Rightarrow> if \<not> is_blank text then parts @ [page_segment i text] else parts)"

definition extract_pages :: "pdf \<Rightarrow> int \<Rightarrow> int \<Rightarrow> string" where
  "extract_pages pdf start end =
     join [newline] (foldl (extract_page_step pdf) [] (py_range start (min end (len_pdf pdf))))"

section \<open>Stage 4: agenda section locator\<close>

text \<open>
  The five regular expressions share the tail \<open>[^\n]{0,60}?(\d{1,3})\b\<close> and differ in the
  keyword alternatives in front of it, so a pattern is the list of its alternatives.
  \<open>re.search\<close> is modelled with the backtracking order of Python's \<open>re\<close>: leftmost start
  position first, alternatives in the order written, the lazy gap from the shortest, the
  greedy digit group from the longest.
\<close>

text \<open>\<open>(\d{1,3})\b\<close> with exactly \<open>n\<close> digits at the head of \<open>s\<close>.\<close>

definition number_at :: "nat \<Rightarrow> string \<Rightarrow> string option" where
  "number_at n s =
     (if n \<le> length s \<and> list_all is_digit (take n s) \<and>
         (case drop n s of [] \<Rightarrow> True | c # _ \<Rightarrow> \<not> is_word c)
      then Some (take n s) else None)"

definition match_number :: "string \<Rightarrow> string option" where
  "match_number s =
     (case number_at 3 s of Some g \<Rightarrow> Some g
      | None \<Rightarrow> (case number_at 2 s of Some g \<Rightarrow> Some g
                 | None \<Rightarrow> number_at 1 s))"

text \<open>\<open>[^\n]{0,60}?\<close> followed by the number; \<open>used\<close> counts the gap characters consumed.\<close>

fun match_gap :: "nat \<Rightarrow> string \<Rightarrow> string option" where
  "match_gap used [] = None"
| "match_gap used (c # s) =
     (case match_number (c # s) of Some g \<Rightarrow> Some g
      | None \<Rightarrow> if used < 60 \<and> c \<noteq> newline then match_gap (Suc used) s else None)"

fun match_here :: "string list \<Rightarrow> string \<Rightarrow> string option" where
  "match_here [] s = None"
| "match_here (kw # kws) s =
     (if take (length kw) s = kw
      then (case match_gap 0 (drop (length kw) s) of Some g \<Rightarrow> Some g
            | None \<Rightarrow> match_here kws s)
      else match_here kws s)"

fun re_search :: "string list \<Rightarrow> string \<Rightarrow> string option" where
  "re_search kws [] = match_here kws []"
| "re_search kws (c # s) =
     (case match_here kws (c # s) of Some g \<Rightarrow> Some g | None \<Rightarrow> re_search kws s)"





text \<open>
  What it means for a pattern to match at an offset, stated without the search: at offset
  \<open>s\<close> the text continues with the keyword \<open>kw\<close>, then \<open>k \<le> 60\<close> characters none of which is a
  newline, then \<open>n\<close> digits (1 to 3) that end at a word boundary. \<open>captured_number\<close> is the
  digit group of such a match.
\<close>

definition pattern_match_at :: "string \<Rightarrow> nat \<Rightarrow> string \<Rightarrow> nat \<Rightarrow> nat \<Rightarrow> bool" where
  "pattern_match_at text s kw k n =
     (let u = drop s text; v = drop (length kw) u; w = drop k v
      in take (length kw) u = kw \<and>
         k \<le> 60 \<and> newline \<notin> set (take k v) \<and>
         1 \<le> n \<and> n \<le> 3 \<and> n \<le> length w \<and> list_all is_digit (take n w) \<and>
         (case drop n w of [] \<Rightarrow> True | c # _ \<Rightarrow> \<not> is_word c))"



section \<open>Stage 4: targeted extraction planner\<close>












section \<open>Stage 5: prompt assembly\<close>




section \<open>Page text extractor: properties\<close>



text \<open>
  C5. When \<open>end\<close> is beyond the page count, \<open>extract_pages\<close> returns what it returns for
  \<open>end\<close> equal to the page count, and no page index at or beyond the count is visited; when
  \<open>start\<close> is at or beyond the page count the result is the empty string.
\<close>

theorem extract_pages_clamps_range:
  "(len_pdf pdf < end \<longrightarrow> extract_pages pdf start end = extract_pages pdf start (len_pdf pdf)) \<and>
   (\<forall>i \<in> set (py_range start (min end (len_pdf pdf))). i < len_pdf pdf) \<and>
   (len_pdf pdf \<le> start \<longrightarrow> extract_pages pdf start end = [])"
  by (auto simp: extract_pages_def py_range_def)

theorem extract_pages_clamps_range_witness:
  "len_pdf [Some ''a'', Some ''b''] < 7 \<and> len_pdf [Some ''a'', Some ''b''] \<le> 2 \<and>
   extract_pages [Some ''a'', Some ''b''] 1 7 = extract_pages [Some ''a'', Some ''b''] 1 2 \<and>
   extract_pages [Some ''a'', Some ''b''] 2 7 = []"
proof -
  have n: "len_pdf [Some ''a'', Some ''b''] = 2"
    by (simp add: len_pdf_def)
  have a: "extract_pages [Some ''a'', Some ''b''] 1 7 = extract_pages [Some ''a'', Some ''b''] 1 2"
    using extract_pages_clamps_range [of "[Some ''a'', Some ''b'']" 7 1] unfolding n by linarith
  have b: "extract_pages [Some ''a'', Some ''b''] 2 7 = []"
    using extract_pages_clamps_range [of "[Some ''a'', Some ''b'']" 7 2] unfolding n by linarith
  show ?thesis using n a b by simp
qed



section \<open>Dictionaries and the agenda section locator: properties\<close>



















section \<open>Targeted extraction planner: properties\<close>













lemma len_pdf_nonneg: "0 \<le> len_pdf pdf"
  by (simp add: len_pdf_def)























section \<open>Prompt assembly: properties\<close>





section \<open>Pattern search: properties\<close>

lemma number_at_Some:
  "number_at n u = Some g \<longleftrightarrow>
   n \<le> length u \<and> list_all is_digit (take n u) \<and>
   (case drop n u of [] \<Rightarrow> True | c # _ \<Rightarrow> \<not> is_word c) \<and> g = take n u"
  unfolding number_at_def by (cases "drop n u") auto


lemma match_number_None:
  assumes "match_number u = None" "1 \<le> n" "n \<le> 3"
  shows "number_at n u = None"
proof -
  have a: "number_at 3 u = None" "number_at 2 u = None" "number_at 1 u = None"
    using assms(1) by (auto simp: match_number_def split: option.splits)
  have "n = 1 \<or> n = 2 \<or> n = 3" using assms(2,3) by arith
  then show ?thesis using a by (elim disjE) simp_all
qed

lemma match_number_Nil: "match_number [] = None"
  by (simp add: match_number_def number_at_def)


lemma match_gap_None:
  "match_gap used u = None \<Longrightarrow> used + k \<le> 60 \<Longrightarrow> newline \<notin> set (take k u) \<Longrightarrow>
   match_number (drop k u) = None"
proof (induction u arbitrary: used k)
  case Nil
  then show ?case by (simp add: match_number_Nil)
next
  case (Cons c u)
  have m: "match_number (c # u) = None"
    using Cons.prems(1) by (auto split: option.splits)
  show ?case
  proof (cases k)
    case 0
    then show ?thesis using m by simp
  next
    case (Suc k')
    have u: "used < 60" using Cons.prems(2) Suc by simp
    have c: "c \<noteq> newline" using Cons.prems(3) Suc by auto
    have g: "match_gap (Suc used) u = None" using Cons.prems(1) m u c by simp
    have "match_number (drop k' u) = None"
    proof (rule Cons.IH[OF g])
      show "Suc used + k' \<le> 60" using Cons.prems(2) Suc by simp
      show "newline \<notin> set (take k' u)" using Cons.prems(3) Suc by simp
    qed
    then show ?thesis using Suc by simp
  qed
qed


lemma match_here_None:
  "match_here kws u = None \<Longrightarrow> kw \<in> set kws \<Longrightarrow> take (length kw) u = kw \<Longrightarrow>
   match_gap 0 (drop (length kw) u) = None"
proof (induction kws)
  case Nil
  then show ?case by simp
next
  case (Cons kw' kws)
  have rest: "match_here kws u = None"
    using Cons.prems(1) by (auto split: if_splits option.splits)
  show ?case
  proof (cases "kw = kw'")
    case True
    then show ?thesis using Cons.prems(1,3) by (auto split: if_splits option.splits)
  next
    case False
    then have "kw \<in> set kws" using Cons.prems(2) by simp
    then show ?thesis using Cons.IH[OF rest] Cons.prems(3) by simp
  qed
qed


lemma re_search_None:
  "re_search kws t = None \<Longrightarrow> match_here kws (drop s t) = None"
proof (induction t arbitrary: s)
  case Nil
  then show ?case by simp
next
  case (Cons c t)
  have h: "match_here kws (c # t) = None" and r: "re_search kws t = None"
    using Cons.prems by (auto split: option.splits)
  show ?case
  proof (cases s)
    case 0
    then show ?thesis using h by simp
  next
    case (Suc s')
    then show ?thesis using Cons.IH[OF r, of s'] by simp
  qed
qed


lemma pattern_match_at_drop:
  "pattern_match_at t s kw k n = pattern_match_at (drop s t) 0 kw k n"
  by (simp add: pattern_match_at_def)



lemma match_here_pattern_None:
  assumes "match_here kws u = None" "kw \<in> set kws"
  shows "\<not> pattern_match_at u 0 kw k n"
proof
  assume m: "pattern_match_at u 0 kw k n"
  let ?w = "drop k (drop (length kw) u)"
  have p: "take (length kw) u = kw" "k \<le> 60" "newline \<notin> set (take k (drop (length kw) u))"
      "1 \<le> n" "n \<le> 3" "n \<le> length ?w" "list_all is_digit (take n ?w)"
      "(case drop n ?w of [] \<Rightarrow> True | c # _ \<Rightarrow> \<not> is_word c)"
    using m unfolding pattern_match_at_def Let_def by simp_all
  have "match_gap 0 (drop (length kw) u) = None"
    by (rule match_here_None[OF assms(1,2) p(1)])
  then have "match_number ?w = None"
    using p(2,3) by (intro match_gap_None[where used=0]) simp_all
  then have "number_at n ?w = None" using p(4,5) by (rule match_number_None)
  moreover have "number_at n ?w = Some (take n ?w)"
    unfolding number_at_Some using p(6,7,8) by simp
  ultimately show False by simp
qed


lemma re_search_no_match:
  assumes "re_search kws t = None" "kw \<in> set kws"
  shows "\<not> pattern_match_at t s kw k n"
proof -
  have "match_here kws (drop s t) = None" by (rule re_search_None[OF assms(1)])
  then have "\<not> pattern_match_at (drop s t) 0 kw k n"
    using assms(2) by (rule match_here_pattern_None)
  then show ?thesis using pattern_match_at_drop by simp
qed





end
